theory Spec2Isabelle
  imports Complex_Main
begin

section \<open>Text primitives used by the chunker\<close>

text \<open>
  Python strings are modelled as \<^typ>\<open>string\<close>; a character stands for the code point
  of the same number (code points below 256), and \<open>len\<close> is \<^const>\<open>length\<close>.
\<close>

definition nl :: char where
  "nl = CHR ''\<newline>''"

text \<open>The paragraph separator, the literal \<^verbatim>\<open>'\n\n'\<close> of \<^verbatim>\<open>index_book.py\<close>.\<close>

definition nn :: string where
  "nn = [nl, nl]"

text \<open>
  \<^verbatim>\<open>str.isspace\<close> on one character: U+0009..U+000D, U+001C..U+0020, U+0085, U+00A0.
\<close>

definition isspace :: "char \<Rightarrow> bool" where
  "isspace c =
     (let n = (of_char c :: nat)
      in (9 \<le> n \<and> n \<le> 13) \<or> (28 \<le> n \<and> n \<le> 32) \<or> n = 133 \<or> n = 160)"

text \<open>\<^verbatim>\<open>str.strip()\<close>: leading and trailing whitespace removed.\<close>

definition strip :: "string \<Rightarrow> string" where
  "strip s = rev (dropWhile isspace (rev (dropWhile isspace s)))"

text \<open>
  \<^verbatim>\<open>text.split('\n\n')\<close>: the text is cut at the occurrences of the separator, found from
  left to right without overlap; the result always has at least one element.
\<close>

fun split_nn :: "string \<Rightarrow> string list" where
  "split_nn [] = [[]]"
| "split_nn [c] = [[c]]"
| "split_nn (c # d # cs) =
     (if c = nl \<and> d = nl then [] # split_nn cs
      else (case split_nn (d # cs) of
              [] \<Rightarrow> [[c]]
            | p # ps \<Rightarrow> (c # p) # ps))"

text \<open>\<^verbatim>\<open>sep.join(parts)\<close>.\<close>

fun join :: "string \<Rightarrow> string list \<Rightarrow> string" where
  "join sep [] = []"
| "join sep [p] = p"
| "join sep (p # q # ps) = p @ sep @ join sep (q # ps)"

section \<open>The chunker: \<^verbatim>\<open>split_content\<close> of \<^verbatim>\<open>index_book.py\<close>\<close>

text \<open>
  The state of the paragraph loop is the pair \<open>(chunks, current_chunk)\<close>.
  \<^verbatim>\<open>
    for para in paragraphs:
        if len(current_chunk) + len(para) < max_length:
            current_chunk += para + "\n\n"
        else:
            if current_chunk:
                chunks.append(current_chunk.strip())
            current_chunk = para + "\n\n"
  \<close>
\<close>

fun split_loop :: "int \<Rightarrow> string list \<Rightarrow> string list \<times> string \<Rightarrow> string list \<times> string" where
  "split_loop max_length [] (chunks, current_chunk) = (chunks, current_chunk)"
| "split_loop max_length (para # paragraphs) (chunks, current_chunk) =
     (if int (length current_chunk) + int (length para) < max_length
      then split_loop max_length paragraphs (chunks, current_chunk @ para @ nn)
      else split_loop max_length paragraphs
             (if current_chunk \<noteq> [] then chunks @ [strip current_chunk] else chunks,
              para @ nn))"

text \<open>
  The statements after the loop: the last buffer is flushed when it is non-empty.
  \<^verbatim>\<open>
    if current_chunk:
        chunks.append(current_chunk.strip())
  \<close>
\<close>

definition flush :: "string list \<times> string \<Rightarrow> string list" where
  "flush st =
     (case st of (chunks, current_chunk) \<Rightarrow>
        if current_chunk \<noteq> [] then chunks @ [strip current_chunk] else chunks)"

text \<open>
  \<^verbatim>\<open>split_content(text, max_length)\<close>; the last line is
  \<^verbatim>\<open>return chunks if chunks else [text]\<close>.
\<close>

definition split_content :: "string \<Rightarrow> int \<Rightarrow> string list" where
  "split_content text max_length =
     (let chunks = flush (split_loop max_length (split_nn text) ([], []))
      in if chunks \<noteq> [] then chunks else [text])"

section \<open>Exceptions, collaborators and the trace of effects\<close>

text \<open>
  An exception of class \<^verbatim>\<open>Exception\<close>: the two the modelled code can raise by itself
  (a missing dictionary key, an index out of range) and \<open>Failure\<close>, any exception raised
  inside a collaborator (embedding model, Qdrant, OpenAI, file system).
\<close>

datatype exn = KeyError string | IndexError | Failure string

type_synonym vector = "real list"

text \<open>A search hit of Qdrant: \<^verbatim>\<open>hit.payload\<close> (a dictionary) and \<^verbatim>\<open>hit.score\<close>.\<close>

record hit =
  payload :: "string \<rightharpoonup> string"
  score :: real

text \<open>
  A retrieved chunk, the dictionary \<^verbatim>\<open>{"text": ..., "source": ..., "score": ...}\<close>.
  Scores are only passed on, never computed with.
\<close>

record doc =
  doc_text :: string
  doc_source :: string
  doc_score :: real

text \<open>The dictionary returned by \<^verbatim>\<open>generate_answer\<close>.\<close>

record answer_result =
  answer :: string
  sources :: "string list"
  confidence :: real

text \<open>What \<^verbatim>\<open>index_book.py\<close> prints.\<close>

datatype message =
    DocsNotFound
  | NoMarkdownFiles
  | Found nat
  | Indexing string
  | Indexed string
  | ErrorIndexing string exn
  | SuccessfullyIndexed int

text \<open>
  Every call of a collaborator, every log line and every printed line is an event; the
  trace of a run is the list of its events, oldest first.
\<close>

datatype event =
    Encode string
  | QdrantSearch vector int
  | QdrantUpsert int vector string string
  | ChatCreate string string
  | ReadFile string
  | LogError string exn
  | LogInfo string
  | Print message

text \<open>
  The collaborators. Each answer may depend on the whole trace so far, so a collaborator
  may answer the same request differently at different moments of a run.
  \<^item> \<open>encode\<close>: \<^verbatim>\<open>embedding_model.encode(text).tolist()\<close>;
  \<^item> \<open>qdrant_search\<close>: \<^verbatim>\<open>qdrant_client.search(collection, query_vector, limit)\<close>;
  \<^item> \<open>qdrant_upsert\<close>: \<^verbatim>\<open>qdrant_client.upsert\<close> of one point (id, vector, text, source);
  \<^item> \<open>chat_create\<close>: \<^verbatim>\<open>openai_client.chat.completions.create\<close> on the system and the
    user prompt, giving the message contents of \<^verbatim>\<open>response.choices\<close>;
  \<^item> \<open>read_file\<close>: \<^verbatim>\<open>open(md_file, 'r', encoding='utf-8')\<close> and \<^verbatim>\<open>f.read()\<close>;
  \<^item> \<open>stdout_write\<close>: the write of one line by \<^verbatim>\<open>print\<close>, which raises when standard
    output is closed or cannot encode the line.

  The calls of \<^verbatim>\<open>logger\<close> are taken not to raise: the logging module handles the errors
  of its handlers itself.
\<close>

record backend =
  encode :: "event list \<Rightarrow> string \<Rightarrow> exn + vector"
  qdrant_search :: "event list \<Rightarrow> vector \<Rightarrow> int \<Rightarrow> exn + hit list"
  qdrant_upsert :: "event list \<Rightarrow> int \<Rightarrow> vector \<Rightarrow> string \<Rightarrow> string \<Rightarrow> exn + unit"
  chat_create :: "event list \<Rightarrow> string \<Rightarrow> string \<Rightarrow> exn + string list"
  read_file :: "event list \<Rightarrow> string \<Rightarrow> exn + string"
  stdout_write :: "event list \<Rightarrow> message \<Rightarrow> exn + unit"

fun retrieval_event :: "event \<Rightarrow> bool" where
  "retrieval_event (Encode _) = True"
| "retrieval_event (QdrantSearch _ _) = True"
| "retrieval_event _ = False"

fun chat_event :: "event \<Rightarrow> bool" where
  "chat_event (ChatCreate _ _) = True"
| "chat_event _ = False"

fun added_event :: "event \<Rightarrow> bool" where
  "added_event (LogInfo _) = True"
| "added_event _ = False"




section \<open>\<^verbatim>\<open>RAGService\<close> of \<^verbatim>\<open>app/services/rag_service.py\<close>\<close>

text \<open>
  Every operation takes the trace so far and returns its outcome with the extended trace.
  An outcome \<open>Inl e\<close> is the exception \<open>e\<close> leaving the operation.
\<close>

text \<open>\<^verbatim>\<open>embed_text\<close>: an exception is logged and raised again.\<close>

definition embed_text :: "backend \<Rightarrow> string \<Rightarrow> event list \<Rightarrow> (exn + vector) \<times> event list" where
  "embed_text b txt tr =
     (case encode b tr txt of
        Inr embedding \<Rightarrow> (Inr embedding, tr @ [Encode txt])
      | Inl e \<Rightarrow> (Inl e, tr @ [Encode txt, LogError ''Error embedding text'' e]))"

text \<open>\<^verbatim>\<open>add_document\<close>: embed, upsert one point, log; an exception is logged and raised again.\<close>

definition add_document ::
  "backend \<Rightarrow> string \<Rightarrow> string \<Rightarrow> int \<Rightarrow> event list \<Rightarrow> (exn + unit) \<times> event list" where
  "add_document b txt source doc_id tr =
     (case embed_text b txt tr of
        (Inl e, tr1) \<Rightarrow> (Inl e, tr1 @ [LogError ''Error adding document'' e])
      | (Inr embedding, tr1) \<Rightarrow>
          (case qdrant_upsert b tr1 doc_id embedding txt source of
             Inl e \<Rightarrow>
               (Inl e, tr1 @ [QdrantUpsert doc_id embedding txt source,
                              LogError ''Error adding document'' e])
           | Inr _ \<Rightarrow>
               (Inr (), tr1 @ [QdrantUpsert doc_id embedding txt source,
                               LogInfo (''Added document: '' @ source)])))"

text \<open>
  One element of the list comprehension of \<^verbatim>\<open>search\<close>; a key absent from the payload
  raises \<^verbatim>\<open>KeyError\<close>.
\<close>

definition hit_doc :: "hit \<Rightarrow> exn + doc" where
  "hit_doc h =
     (case payload h ''text'' of
        None \<Rightarrow> Inl (KeyError ''text'')
      | Some t \<Rightarrow>
          (case payload h ''source'' of
             None \<Rightarrow> Inl (KeyError ''source'')
           | Some s \<Rightarrow> Inr \<lparr>doc_text = t, doc_source = s, doc_score = score h\<rparr>))"

fun hits_docs :: "hit list \<Rightarrow> exn + doc list" where
  "hits_docs [] = Inr []"
| "hits_docs (h # hs) =
     (case hit_doc h of
        Inl e \<Rightarrow> Inl e
      | Inr d \<Rightarrow> (case hits_docs hs of Inl e \<Rightarrow> Inl e | Inr ds \<Rightarrow> Inr (d # ds)))"

text \<open>The \<^verbatim>\<open>try\<close> block of \<^verbatim>\<open>search\<close>.\<close>

definition search_body ::
  "backend \<Rightarrow> string \<Rightarrow> int \<Rightarrow> event list \<Rightarrow> (exn + doc list) \<times> event list" where
  "search_body b query limit tr =
     (case embed_text b query tr of
        (Inl e, tr1) \<Rightarrow> (Inl e, tr1)
      | (Inr query_vector, tr1) \<Rightarrow>
          (case qdrant_search b tr1 query_vector limit of
             Inl e \<Rightarrow> (Inl e, tr1 @ [QdrantSearch query_vector limit])
           | Inr results \<Rightarrow> (hits_docs results, tr1 @ [QdrantSearch query_vector limit])))"

text \<open>
  \<^verbatim>\<open>search\<close>: the handler \<^verbatim>\<open>except Exception\<close> logs and returns the empty list, so no
  exception leaves the operation.
\<close>

definition search :: "backend \<Rightarrow> string \<Rightarrow> int \<Rightarrow> event list \<Rightarrow> doc list \<times> event list" where
  "search b query limit tr =
     (case search_body b query limit tr of
        (Inr docs, tr1) \<Rightarrow> (docs, tr1)
      | (Inl e, tr1) \<Rightarrow> ([], tr1 @ [LogError ''Error searching'' e]))"

text \<open>
  The retrieval step of \<^verbatim>\<open>generate_answer\<close>:
  \<^verbatim>\<open>
    if context:
        relevant_docs = [{"text": context, "source": "Selected Text", "score": 1.0}]
    else:
        relevant_docs = await self.search(question, limit=3)
  \<close>
  The context is \<open>None\<close> or a string; \<open>None\<close> and the empty string are false.
\<close>

definition retrieve ::
  "backend \<Rightarrow> string \<Rightarrow> string option \<Rightarrow> event list \<Rightarrow> doc list \<times> event list" where
  "retrieve b question context tr =
     (case context of
        None \<Rightarrow> search b question 3 tr
      | Some c \<Rightarrow>
          if c \<noteq> []
          then ([\<lparr>doc_text = c, doc_source = ''Selected Text'', doc_score = 1\<rparr>], tr)
          else search b question 3 tr)"

definition not_found_answer :: string where
  "not_found_answer =
     ''I couldn't find relevant information in the textbook to answer your question.''"

definition system_prompt :: string where
  "system_prompt =
     ''You are a helpful assistant for a Physical AI & Humanoid Robotics textbook. \<newline>''
     @ ''Answer questions based on the provided context from the textbook. \<newline>''
     @ ''If the answer is not in the context, say so clearly.\<newline>''
     @ ''Be concise and technical but easy to understand.''"

definition context_text :: "doc list \<Rightarrow> string" where
  "context_text relevant_docs =
     join nn (map (\<lambda>d. ''Source: '' @ doc_source d @ [nl] @ doc_text d) relevant_docs)"

definition user_prompt :: "doc list \<Rightarrow> string \<Rightarrow> string" where
  "user_prompt relevant_docs question =
     ''Context from textbook:\<newline>'' @ context_text relevant_docs
     @ ''\<newline>\<newline>Question: '' @ question
     @ ''\<newline>\<newline>Please provide a clear and accurate answer based on the context above.''"

text \<open>
  The \<^verbatim>\<open>try\<close> block of \<^verbatim>\<open>generate_answer\<close>. \<^verbatim>\<open>response.choices[0]\<close> raises
  \<^verbatim>\<open>IndexError\<close> on an empty list of choices.
\<close>

definition generate_answer_body ::
  "backend \<Rightarrow> string \<Rightarrow> string option \<Rightarrow> event list \<Rightarrow> (exn + answer_result) \<times> event list" where
  "generate_answer_body b question context tr =
     (case retrieve b question context tr of
        (relevant_docs, tr1) \<Rightarrow>
          if relevant_docs = []
          then (Inr \<lparr>answer = not_found_answer, sources = [], confidence = 0\<rparr>, tr1)
          else
            (let user = user_prompt relevant_docs question;
                 tr2 = tr1 @ [ChatCreate system_prompt user]
             in case chat_create b tr1 system_prompt user of
                  Inl e \<Rightarrow> (Inl e, tr2)
                | Inr choices \<Rightarrow>
                    (case choices of
                       [] \<Rightarrow> (Inl IndexError, tr2)
                     | content # _ \<Rightarrow>
                         (Inr \<lparr>answer = content,
                               sources = map doc_source relevant_docs,
                               confidence = (case relevant_docs of
                                               d # _ \<Rightarrow> doc_score d
                                             | [] \<Rightarrow> 0)\<rparr>,
                          tr2))))"

text \<open>\<^verbatim>\<open>generate_answer\<close>: the handler logs the exception and raises it again.\<close>

definition generate_answer ::
  "backend \<Rightarrow> string \<Rightarrow> string option \<Rightarrow> event list \<Rightarrow> (exn + answer_result) \<times> event list" where
  "generate_answer b question context tr =
     (case generate_answer_body b question context tr of
        (Inr result, tr1) \<Rightarrow> (Inr result, tr1)
      | (Inl e, tr1) \<Rightarrow> (Inl e, tr1 @ [LogError ''Error generating answer'' e]))"

section \<open>The indexing pipeline: \<^verbatim>\<open>index_markdown_files\<close> of \<^verbatim>\<open>index_book.py\<close>\<close>

text \<open>\<^verbatim>\<open>str(n)\<close> for a natural number, used by \<^verbatim>\<open>f"{source} (Part {i+1})"\<close>.\<close>

fun str_nat :: "nat \<Rightarrow> string" where
  "str_nat n =
     (if n < 10 then [''0123456789'' ! n]
      else str_nat (n div 10) @ [''0123456789'' ! (n mod 10)])"

text \<open>
  \<^verbatim>\<open>print(line)\<close>: the line is written to standard output; the write may raise.
\<close>

definition print_line :: "backend \<Rightarrow> message \<Rightarrow> event list \<Rightarrow> (exn + unit) \<times> event list" where
  "print_line b line tr = (stdout_write b tr line, tr @ [Print line])"

text \<open>
  The loop over the chunks of one file, with the counter \<open>doc_id\<close>; \<open>n\<close> is
  \<^verbatim>\<open>len(chunks)\<close>. An exception of \<^verbatim>\<open>print\<close> or of \<^verbatim>\<open>add_document\<close> leaves the loop at
  once; the counter keeps the value it has reached.
  \<^verbatim>\<open>
    for i, chunk in enumerate(chunks):
        chunk_source = f"{source} (Part {i+1})" if len(chunks) > 1 else source
        print(f"Indexing: {chunk_source}")
        await rag_service.add_document(text=chunk, source=chunk_source, doc_id=doc_id)
        doc_id += 1
  \<close>
\<close>

fun index_chunks ::
  "backend \<Rightarrow> string \<Rightarrow> nat \<Rightarrow> (nat \<times> string) list \<Rightarrow> int \<times> event list
   \<Rightarrow> (exn + unit) \<times> int \<times> event list" where
  "index_chunks b source n [] (doc_id, tr) = (Inr (), doc_id, tr)"
| "index_chunks b source n ((i, chunk) # rest) (doc_id, tr) =
     (let chunk_source = (if 1 < n then source @ '' (Part '' @ str_nat (i + 1) @ '')'' else source)
      in case print_line b (Indexing chunk_source) tr of
           (Inl e, tr1) \<Rightarrow> (Inl e, doc_id, tr1)
         | (Inr _, tr1) \<Rightarrow>
             (case add_document b chunk chunk_source doc_id tr1 of
                (Inl e, tr2) \<Rightarrow> (Inl e, doc_id, tr2)
              | (Inr _, tr2) \<Rightarrow> index_chunks b source n rest (doc_id + 1, tr2)))"

text \<open>
  The \<^verbatim>\<open>try\<close> block for one file. A file is named by its path relative to the docs
  folder, which is also its source label. A file whose stripped content is shorter than
  50 characters is skipped (\<^verbatim>\<open>continue\<close>). The last statement of the block prints the
  line of success.
\<close>

definition index_file_body ::
  "backend \<Rightarrow> string \<Rightarrow> int \<times> event list \<Rightarrow> (exn + unit) \<times> int \<times> event list" where
  "index_file_body b md_file st =
     (case st of (doc_id, tr) \<Rightarrow>
        (case read_file b tr md_file of
           Inl e \<Rightarrow> (Inl e, doc_id, tr @ [ReadFile md_file])
         | Inr content \<Rightarrow>
             if length (strip content) < 50 then (Inr (), doc_id, tr @ [ReadFile md_file])
             else
               (let source = md_file;
                    chunks = split_content content 1000
                in case index_chunks b source (length chunks) (enumerate 0 chunks)
                          (doc_id, tr @ [ReadFile md_file]) of
                     (Inl e, doc_id1, tr1) \<Rightarrow> (Inl e, doc_id1, tr1)
                   | (Inr _, doc_id1, tr1) \<Rightarrow>
                       (case print_line b (Indexed source) tr1 of
                          (Inl e, tr2) \<Rightarrow> (Inl e, doc_id1, tr2)
                        | (Inr _, tr2) \<Rightarrow> (Inr (), doc_id1, tr2)))))"

text \<open>
  The loop over the files. The handler \<^verbatim>\<open>except Exception\<close> prints the error, and the
  loop goes on with the next file; an exception of that \<^verbatim>\<open>print\<close> is caught by nothing
  and leaves the loop.
\<close>

fun index_files ::
  "backend \<Rightarrow> string list \<Rightarrow> int \<times> event list \<Rightarrow> (exn + unit) \<times> int \<times> event list" where
  "index_files b [] (doc_id, tr) = (Inr (), doc_id, tr)"
| "index_files b (md_file # md_files) (doc_id, tr) =
     (case index_file_body b md_file (doc_id, tr) of
        (Inr _, doc_id1, tr1) \<Rightarrow> index_files b md_files (doc_id1, tr1)
      | (Inl e, doc_id1, tr1) \<Rightarrow>
          (case print_line b (ErrorIndexing md_file e) tr1 of
             (Inl e', tr2) \<Rightarrow> (Inl e', doc_id1, tr2)
           | (Inr _, tr2) \<Rightarrow> index_files b md_files (doc_id1, tr2)))"

text \<open>
  \<^verbatim>\<open>index_markdown_files\<close>, given whether the docs folder exists and the files
  \<^verbatim>\<open>docs_path.rglob("*.md")\<close> finds; the construction of the service is taken to succeed.
  The outcome \<open>Inl e\<close> is an exception that ends the run.
\<close>

definition index_markdown_files ::
  "backend \<Rightarrow> bool \<Rightarrow> string list \<Rightarrow> event list \<Rightarrow> (exn + unit) \<times> event list" where
  "index_markdown_files b docs_exist md_files tr =
     (if \<not> docs_exist then print_line b DocsNotFound tr
      else if md_files = [] then print_line b NoMarkdownFiles tr
      else
        (case print_line b (Found (length md_files)) tr of
           (Inl e, tr1) \<Rightarrow> (Inl e, tr1)
         | (Inr _, tr1) \<Rightarrow>
             (case index_files b md_files (1, tr1) of
                (Inl e, doc_id, tr2) \<Rightarrow> (Inl e, tr2)
              | (Inr _, doc_id, tr2) \<Rightarrow>
                  print_line b (SuccessfullyIndexed (doc_id - 1)) tr2)))"

section \<open>Example collaborators\<close>

text \<open>
  Concrete collaborators on which the theorems below are run. In \<open>ok_backend\<close> every call
  succeeds: the index holds one record, the model gives one choice, every file holds
  sixty letters, and every line is printed.
\<close>

definition ok_backend :: backend where
  "ok_backend =
     \<lparr>encode = (\<lambda>tr txt. Inr [1]),
      qdrant_search = (\<lambda>tr v k.
        Inr [\<lparr>payload = [''text'' \<mapsto> ''Robots walk.'', ''source'' \<mapsto> ''intro.md''],
              score = 1 / 2\<rparr>]),
      qdrant_upsert = (\<lambda>tr i v txt src. Inr ()),
      chat_create = (\<lambda>tr sys usr. Inr [''Humanoids are robots.'']),
      read_file = (\<lambda>tr p. Inr (replicate 60 CHR ''x'')),
      stdout_write = (\<lambda>tr line. Inr ())\<rparr>"

text \<open>The index is unreachable.\<close>

definition no_index_backend :: backend where
  "no_index_backend = ok_backend\<lparr>qdrant_search := (\<lambda>tr v k. Inl (Failure ''unreachable''))\<rparr>"

text \<open>The index answers, and holds nothing.\<close>

definition empty_index_backend :: backend where
  "empty_index_backend = ok_backend\<lparr>qdrant_search := (\<lambda>tr v k. Inr [])\<rparr>"

text \<open>The embedding model fails.\<close>

definition no_embedding_backend :: backend where
  "no_embedding_backend = ok_backend\<lparr>encode := (\<lambda>tr txt. Inl (Failure ''model''))\<rparr>"

text \<open>The generative model fails.\<close>

definition no_chat_backend :: backend where
  "no_chat_backend = ok_backend\<lparr>chat_create := (\<lambda>tr sys usr. Inl (Failure ''timeout''))\<rparr>"



text \<open>The file \<open>bad.md\<close> cannot be read; every other file holds sixty letters.\<close>

definition unreadable_backend :: backend where
  "unreadable_backend =
     ok_backend\<lparr>read_file := (\<lambda>tr p. if p = ''bad.md'' then Inl (Failure ''decode'')
                                     else Inr (replicate 60 CHR ''x''))\<rparr>"

text \<open>
  As \<open>unreadable_backend\<close>, with a standard output that cannot print the line of an
  error.
\<close>

definition no_error_line_backend :: backend where
  "no_error_line_backend =
     unreadable_backend\<lparr>stdout_write := (\<lambda>tr line.
        case line of ErrorIndexing f e \<Rightarrow> Inl (Failure ''encode'') | _ \<Rightarrow> Inr ())\<rparr>"

section \<open>Properties of the text primitives\<close>

lemma split_nn_nonempty: "split_nn t \<noteq> []"
  by (induction t rule: split_nn.induct) (auto split: list.splits)

lemma join_Cons: "ps \<noteq> [] \<Longrightarrow> join sep (p # ps) = p @ sep @ join sep ps"
  by (cases ps) auto

lemma join_split_nn: "join nn (split_nn t) = t"
proof (induction t rule: split_nn.induct)
  case (3 c d cs)
  show ?case
  proof (cases "c = nl \<and> d = nl")
    case True
    with 3 show ?thesis
      by (simp add: join_Cons split_nn_nonempty nn_def)
  next
    case False
    obtain p ps where eq: "split_nn (d # cs) = p # ps"
      using split_nn_nonempty [of "d # cs"] by (cases "split_nn (d # cs)") auto
    from 3(2) False eq have "join nn (p # ps) = d # cs" by simp
    then have "join nn ((c # p) # ps) = c # d # cs"
      by (cases ps) auto
    with False eq show ?thesis by auto
  qed
qed auto

lemma concat_map_nn: "ps \<noteq> [] \<Longrightarrow> concat (map (\<lambda>p. p @ nn) ps) = join nn ps @ nn"
  by (induction ps rule: induct_list012) auto

lemma isspace_nl: "isspace nl"
  by (simp add: isspace_def nl_def)

lemma length_strip: "length (strip s) \<le> length s"
  unfolding strip_def
  by (metis length_rev length_dropWhile_le order_trans)

lemma dropWhile_all: "\<forall>c\<in>set s. P c \<Longrightarrow> dropWhile P s = []"
  by (induction s) auto

lemma dropWhile_append_all: "\<forall>c\<in>set w. P c \<Longrightarrow> dropWhile P (w @ v) = dropWhile P v"
  by (induction w) auto

lemma strip_all_space: "\<forall>c\<in>set s. isspace c \<Longrightarrow> strip s = []"
  by (simp add: strip_def dropWhile_all)

lemma strip_append_space:
  assumes "\<forall>c\<in>set w. isspace c"
  shows "strip (u @ w) = strip u"
proof (cases "\<forall>c\<in>set u. isspace c")
  case True
  with assms have "\<forall>c\<in>set (u @ w). isspace c" by auto
  then have "strip (u @ w) = []" by (rule strip_all_space)
  with True show ?thesis by (simp add: strip_all_space)
next
  case False
  then have "dropWhile isspace (u @ w) = dropWhile isspace u @ w"
    by auto
  moreover have "dropWhile isspace (rev w @ v) = dropWhile isspace v" for v
    using assms by (intro dropWhile_append_all) simp
  ultimately show ?thesis by (simp add: strip_def)
qed

lemma strip_append_nn: "strip (u @ nn) = strip u"
  by (rule strip_append_space) (simp add: nn_def isspace_nl)

lemma filter_dropWhile_neg: "filter (\<lambda>c. \<not> P c) (dropWhile P s) = filter (\<lambda>c. \<not> P c) s"
  by (induction s) auto

lemma filter_strip: "filter (\<lambda>c. \<not> isspace c) (strip s) = filter (\<lambda>c. \<not> isspace c) s"
proof -
  have "filter (\<lambda>c. \<not> isspace c) (strip s)
        = rev (filter (\<lambda>c. \<not> isspace c) (dropWhile isspace (rev (dropWhile isspace s))))"
    by (simp add: strip_def rev_filter)
  also have "\<dots> = rev (filter (\<lambda>c. \<not> isspace c) (rev (dropWhile isspace s)))"
    by (simp only: filter_dropWhile_neg)
  also have "\<dots> = filter (\<lambda>c. \<not> isspace c) s"
    by (simp add: rev_filter filter_dropWhile_neg)
  finally show ?thesis .
qed

section \<open>Properties of the paragraph loop\<close>

lemma split_loop_segments:
  "\<exists>segs. fst (split_loop m ps (chunks, cur)) = chunks @ map strip segs
        \<and> concat segs @ snd (split_loop m ps (chunks, cur)) = cur @ concat (map (\<lambda>p. p @ nn) ps)"
proof (induction ps arbitrary: chunks cur)
  case Nil
  have "fst (split_loop m [] (chunks, cur)) = chunks @ map strip []
      \<and> concat [] @ snd (split_loop m [] (chunks, cur)) = cur @ concat (map (\<lambda>p. p @ nn) [])"
    by simp
  then show ?case by blast
next
  case (Cons para ps)
  show ?case
  proof (cases "int (length cur) + int (length para) < m")
    case True
    from Cons.IH [of chunks "cur @ para @ nn"] True show ?thesis by simp
  next
    case False
    show ?thesis
    proof (cases "cur = []")
      case True
      from Cons.IH [of chunks "para @ nn"] False True show ?thesis by simp
    next
      case nonempty: False
      from Cons.IH [of "chunks @ [strip cur]" "para @ nn"]
      obtain segs where
        a: "fst (split_loop m ps (chunks @ [strip cur], para @ nn)) = (chunks @ [strip cur]) @ map strip segs"
        and b: "concat segs @ snd (split_loop m ps (chunks @ [strip cur], para @ nn))
                = (para @ nn) @ concat (map (\<lambda>p. p @ nn) ps)"
        by blast
      have "fst (split_loop m (para # ps) (chunks, cur)) = chunks @ map strip (cur # segs)"
        using a False nonempty by simp
      moreover have "concat (cur # segs) @ snd (split_loop m (para # ps) (chunks, cur))
                     = cur @ concat (map (\<lambda>p. p @ nn) (para # ps))"
        using b False nonempty by simp
      ultimately show ?thesis by blast
    qed
  qed
qed

lemma split_loop_buffer:
  "(\<exists>u. cur = u @ nn) \<or> ps \<noteq> [] \<Longrightarrow> \<exists>u. snd (split_loop m ps (chunks, cur)) = u @ nn"
proof (induction ps arbitrary: chunks cur)
  case Nil
  then show ?case by simp
next
  case (Cons para ps)
  show ?case
  proof (cases "int (length cur) + int (length para) < m")
    case True
    have "\<exists>u. cur @ para @ nn = u @ nn" by (rule exI [of _ "cur @ para"]) simp
    then have "\<exists>u. snd (split_loop m ps (chunks, cur @ para @ nn)) = u @ nn"
      by (intro Cons.IH) simp
    with True show ?thesis by simp
  next
    case False
    have "\<exists>u. snd (split_loop m ps (if cur \<noteq> [] then chunks @ [strip cur] else chunks, para @ nn)) = u @ nn"
      by (intro Cons.IH) simp
    with False show ?thesis by simp
  qed
qed

lemma nn_nonempty: "u @ nn \<noteq> []"
  by (simp add: nn_def)

lemma split_loop_buffer_nonempty:
  "snd (split_loop m (split_nn text) ([], [])) \<noteq> []"
  using split_loop_buffer [of "[]" "split_nn text" m "[]"] split_nn_nonempty [of "text"]
  by (auto simp: nn_def)

lemma flush_split_loop:
  "flush (split_loop m (split_nn text) ([], []))
   = fst (split_loop m (split_nn text) ([], [])) @ [strip (snd (split_loop m (split_nn text) ([], [])))]"
  using split_loop_buffer_nonempty [of m "text"]
  by (cases "split_loop m (split_nn text) ([], [])") (simp add: flush_def)

lemma split_content_flush:
  "split_content text m = flush (split_loop m (split_nn text) ([], []))"
  by (simp add: split_content_def flush_split_loop)

lemma split_content_segments:
  "\<exists>segs. concat segs = text @ nn \<and> split_content text m = map strip segs"
proof -
  let ?r = "split_loop m (split_nn text) ([], [])"
  obtain segs where a: "fst ?r = map strip segs"
    and b: "concat segs @ snd ?r = concat (map (\<lambda>p. p @ nn) (split_nn text))"
    using split_loop_segments [of m "split_nn text" "[]" "[]"] by auto
  have "concat (segs @ [snd ?r]) = text @ nn"
    using b by (simp add: concat_map_nn split_nn_nonempty join_split_nn)
  moreover have "split_content text m = map strip (segs @ [snd ?r])"
    using a by (simp add: split_content_flush flush_split_loop)
  ultimately show ?thesis by blast
qed

lemma filter_concat_strip:
  "filter (\<lambda>c. \<not> isspace c) (concat (map strip segs)) = filter (\<lambda>c. \<not> isspace c) (concat segs)"
  by (induction segs) (simp_all add: filter_strip)

lemma split_content_nonspace:
  "filter (\<lambda>c. \<not> isspace c) (concat (split_content text m)) = filter (\<lambda>c. \<not> isspace c) text"
proof -
  obtain segs where a: "concat segs = text @ nn" and b: "split_content text m = map strip segs"
    using split_content_segments by blast
  have "filter (\<lambda>c. \<not> isspace c) (concat (split_content text m))
        = filter (\<lambda>c. \<not> isspace c) (text @ nn)"
    by (simp only: b filter_concat_strip a)
  then show ?thesis by (simp add: nn_def isspace_nl)
qed

lemma nn_not_Nil: "nn \<noteq> []"
  by (simp add: nn_def)

lemma buffer_chunk_bound:
  assumes "cur = u @ nn" and "int (length u) < m \<or> u \<in> P"
  shows "int (length (strip cur)) \<le> m \<or> (\<exists>p\<in>P. m < int (length p) \<and> strip cur = strip p)"
proof -
  have eq: "strip cur = strip u" using assms(1) by (simp add: strip_append_nn)
  have le: "int (length (strip u)) \<le> int (length u)" using length_strip [of u] by simp
  show ?thesis
  proof (cases "m < int (length u)")
    case True
    with assms(2) have "u \<in> P" by simp
    with True eq show ?thesis by blast
  next
    case False
    with le eq show ?thesis by simp
  qed
qed

lemma split_loop_bound:
  assumes "set ps \<subseteq> P"
    and "cur = [] \<or> (\<exists>u. cur = u @ nn \<and> (int (length u) < m \<or> u \<in> P))"
    and "\<forall>c\<in>set chunks. int (length c) \<le> m \<or> (\<exists>p\<in>P. m < int (length p) \<and> c = strip p)"
  shows "\<forall>c\<in>set (flush (split_loop m ps (chunks, cur))).
           int (length c) \<le> m \<or> (\<exists>p\<in>P. m < int (length p) \<and> c = strip p)"
  using assms
proof (induction ps arbitrary: chunks cur)
  case Nil
  show ?case
  proof (cases "cur = []")
    case True
    with Nil(3) show ?thesis by (simp add: flush_def)
  next
    case False
    with Nil(2) obtain u where "cur = u @ nn" "int (length u) < m \<or> u \<in> P" by blast
    from buffer_chunk_bound [OF this] Nil(3) False show ?thesis
      by (simp add: flush_def)
  qed
next
  case (Cons para ps)
  from Cons.prems(1) have sub: "set ps \<subseteq> P" and para: "para \<in> P" by simp_all
  show ?case
  proof (cases "int (length cur) + int (length para) < m")
    case True
    have "cur @ para @ nn = (cur @ para) @ nn \<and> int (length (cur @ para)) < m"
      using True by simp
    then have buf: "cur @ para @ nn = [] \<or>
        (\<exists>u. cur @ para @ nn = u @ nn \<and> (int (length u) < m \<or> u \<in> P))"
      by blast
    from Cons.IH [OF sub buf Cons.prems(3)] True show ?thesis by simp
  next
    case False
    have buf: "para @ nn = [] \<or> (\<exists>u. para @ nn = u @ nn \<and> (int (length u) < m \<or> u \<in> P))"
      using para by blast
    show ?thesis
    proof (cases "cur = []")
      case True
      from Cons.IH [OF sub buf Cons.prems(3)] False True show ?thesis by simp
    next
      case nonempty: False
      with Cons.prems(2) obtain u where "cur = u @ nn" "int (length u) < m \<or> u \<in> P" by blast
      from buffer_chunk_bound [OF this] Cons.prems(3)
      have "\<forall>c\<in>set (chunks @ [strip cur]).
              int (length c) \<le> m \<or> (\<exists>p\<in>P. m < int (length p) \<and> c = strip p)"
        by auto
      from Cons.IH [OF sub buf this] False nonempty show ?thesis by simp
    qed
  qed
qed

lemma split_content_bound:
  "\<forall>c\<in>set (split_content text m).
     int (length c) \<le> m \<or> (\<exists>p\<in>set (split_nn text). m < int (length p) \<and> c = strip p)"
  unfolding split_content_flush
  by (rule split_loop_bound) simp_all

lemma split_loop_mono:
  "set chunks \<subseteq> set (flush (split_loop m ps (chunks, cur)))"
proof (induction ps arbitrary: chunks cur)
  case Nil
  show ?case by (auto simp: flush_def)
next
  case (Cons para ps)
  show ?case
  proof (cases "int (length cur) + int (length para) < m")
    case True
    with Cons.IH [of chunks "cur @ para @ nn"] show ?thesis by simp
  next
    case False
    with Cons.IH [of "if cur \<noteq> [] then chunks @ [strip cur] else chunks" "para @ nn"]
    show ?thesis by (auto split: if_splits)
  qed
qed

lemma split_loop_big_buffer:
  assumes "cur \<noteq> []" and "m \<le> int (length cur)"
  shows "strip cur \<in> set (flush (split_loop m ps (chunks, cur)))"
proof (cases ps)
  case Nil
  with assms show ?thesis by (simp add: flush_def)
next
  case (Cons q qs)
  have "strip cur \<in> set (chunks @ [strip cur])" by simp
  with split_loop_mono [of "chunks @ [strip cur]" m qs "q @ nn"]
  have "strip cur \<in> set (flush (split_loop m qs (chunks @ [strip cur], q @ nn)))" by blast
  with Cons assms show ?thesis by simp
qed

lemma split_loop_oversized:
  assumes "p \<in> set ps" and "m < int (length p)"
  shows "strip p \<in> set (flush (split_loop m ps (chunks, cur)))"
  using assms(1)
proof (induction ps arbitrary: chunks cur)
  case Nil
  then show ?case by simp
next
  case (Cons para ps)
  show ?case
  proof (cases "p = para")
    case True
    with assms(2) have no: "\<not> int (length cur) + int (length para) < m" by simp
    have "strip (para @ nn) \<in> set (flush (split_loop m ps
            (if cur \<noteq> [] then chunks @ [strip cur] else chunks, para @ nn)))"
      using assms(2) True by (intro split_loop_big_buffer) (simp_all add: nn_def)
    with no True show ?thesis by (simp add: strip_append_nn)
  next
    case False
    with Cons.prems have "p \<in> set ps" by simp
    from Cons.IH [OF this] show ?thesis by simp
  qed
qed

lemma split_content_oversized:
  "p \<in> set (split_nn text) \<Longrightarrow> m < int (length p) \<Longrightarrow> strip p \<in> set (split_content text m)"
  unfolding split_content_flush by (rule split_loop_oversized)

lemma split_loop_fits:
  "ps \<noteq> [] \<Longrightarrow> int (length cur) + int (length (join nn ps)) < m \<Longrightarrow>
   split_loop m ps (chunks, cur) = (chunks, cur @ concat (map (\<lambda>p. p @ nn) ps))"
proof (induction ps arbitrary: cur rule: induct_list012)
  case 1
  then show ?case by simp
next
  case (2 p)
  then show ?case by simp
next
  case (3 p q ps)
  from 3(4) have a: "int (length cur) + int (length p) < m" by simp
  from 3(4) have b: "int (length (cur @ p @ nn)) + int (length (join nn (q # ps))) < m"
    by simp
  from 3(2) [OF _ b] a show ?case by simp
qed

lemma split_content_fits:
  assumes "int (length text) < m"
  shows "split_content text m = [strip text]"
proof -
  have "split_loop m (split_nn text) ([], []) = ([], [] @ concat (map (\<lambda>p. p @ nn) (split_nn text)))"
    using assms by (intro split_loop_fits) (simp_all add: split_nn_nonempty join_split_nn)
  then have "split_loop m (split_nn text) ([], []) = ([], text @ nn)"
    by (simp add: concat_map_nn split_nn_nonempty join_split_nn)
  then show ?thesis
    by (simp add: split_content_flush flush_def strip_append_nn nn_not_Nil)
qed

lemma split_content_single_paragraph:
  assumes "split_nn text = [text]"
  shows "split_content text m = [strip text]"
  using assms by (simp add: split_content_flush flush_def strip_append_nn nn_not_Nil)

lemma split_content_whitespace:
  assumes "\<forall>c\<in>set text. isspace c"
  shows "\<forall>ch\<in>set (split_content text m). ch = []"
proof -
  obtain segs where a: "concat segs = text @ nn" and b: "split_content text m = map strip segs"
    using split_content_segments by blast
  have "\<forall>c\<in>set (concat segs). isspace c"
    using assms by (auto simp: a nn_def isspace_nl)
  then have "\<forall>s\<in>set segs. strip s = []"
    by (auto intro!: strip_all_space)
  then show ?thesis by (auto simp: b)
qed

section \<open>The chunker: claims\<close>

text \<open>
  Claim C3. Every chunk returned by \<open>split_content text max_length\<close> has length at most
  \<open>max_length\<close>, unless it is a single paragraph (stripped) whose own length exceeds
  \<open>max_length\<close>; and every paragraph longer than \<open>max_length\<close> is kept whole as a
  chunk of its own.
\<close>

theorem split_content_chunk_length:
  "(\<forall>c\<in>set (split_content text max_length).
      int (length c) \<le> max_length
      \<or> (\<exists>para\<in>set (split_nn text). max_length < int (length para) \<and> c = strip para))
   \<and> (\<forall>para\<in>set (split_nn text).
        max_length < int (length para) \<longrightarrow> strip para \<in> set (split_content text max_length))"
  using split_content_bound [of "text" max_length] split_content_oversized [of _ "text" max_length]
  by blast

text \<open>
  The text \<^verbatim>\<open>"aaaa\n\nbb"\<close> with bound 3: the paragraph \<open>aaaa\<close> exceeds the bound and is
  a chunk.
\<close>

theorem split_content_chunk_length_witness:
  "''aaaa'' \<in> set (split_content ''aaaa\<newline>\<newline>bb'' 3)
   \<and> ''aaaa'' \<in> set (split_nn ''aaaa\<newline>\<newline>bb'')
   \<and> (3::int) < int (length ''aaaa'')
   \<and> (int (length ''aaaa'') \<le> 3
        \<or> (\<exists>para\<in>set (split_nn ''aaaa\<newline>\<newline>bb'').
              3 < int (length para) \<and> ''aaaa'' = strip para))
   \<and> strip ''aaaa'' \<in> set (split_content ''aaaa\<newline>\<newline>bb'' 3)"
proof -
  have a: "''aaaa'' \<in> set (split_content ''aaaa\<newline>\<newline>bb'' 3)"
    by (simp add: split_content_def flush_def strip_def isspace_def nn_def nl_def)
  have b: "''aaaa'' \<in> set (split_nn ''aaaa\<newline>\<newline>bb'') \<and> (3::int) < int (length ''aaaa'')"
    by (simp add: nl_def)
  from split_content_chunk_length [of "''aaaa\<newline>\<newline>bb''" 3] a b show ?thesis
    by blast
qed

text \<open>
  Claim C4 as stated fails: the chunks of the text \<^verbatim>\<open>" a"\<close> are \<^verbatim>\<open>["a"]\<close>; the leading
  space is dropped, and no separator was inserted.
\<close>

theorem split_content_drops_whitespace:
  "split_content '' a'' 1000 = [''a'']
   \<and> CHR '' '' \<in> set '' a''
   \<and> CHR '' '' \<notin> set (concat (split_content '' a'' 1000))
   \<and> length (concat (split_content '' a'' 1000)) < length '' a''"
  by (simp add: split_content_def flush_def strip_def isspace_def nn_def nl_def)

text \<open>
  Claim C4, amended. The chunks are the stripped forms of consecutive segments whose
  concatenation is the text followed by one paragraph separator; so only whitespace at
  the ends of chunks is dropped, and the characters of the text that are not whitespace
  are those of the chunks, in the same order.
\<close>

theorem split_content_reconstructs_modulo_whitespace:
  "(\<exists>segs. concat segs = text @ nn \<and> split_content text max_length = map strip segs)
   \<and> filter (\<lambda>c. \<not> isspace c) (concat (split_content text max_length))
     = filter (\<lambda>c. \<not> isspace c) text"
  using split_content_segments [of "text" max_length] split_content_nonspace [of "text" max_length]
  by blast

text \<open>
  Claim C10 as stated fails in its last part: the whitespace-only text \<^verbatim>\<open>"\n\n"\<close> with
  bound 1 yields two empty chunks, not one.
\<close>

theorem whitespace_text_two_chunks:
  "isspace nl \<and> split_content [nl, nl] 1 = [[], []]"
  by (simp add: split_content_def flush_def strip_def isspace_def nn_def nl_def)

text \<open>
  Claim C10, amended. \<open>split_content\<close> never returns the empty list: the buffer is
  non-empty after the paragraph loop, so the result is the flushed loop state and the
  fallback \<^verbatim>\<open>[text]\<close> is never taken. A whitespace-only text yields only empty chunks,
  and exactly one when the text is shorter than \<open>max_length\<close> or holds no paragraph
  separator.
\<close>

theorem split_content_never_empty:
  "split_content text max_length \<noteq> []
   \<and> snd (split_loop max_length (split_nn text) ([], [])) \<noteq> []
   \<and> split_content text max_length = flush (split_loop max_length (split_nn text) ([], []))
   \<and> ((\<forall>c\<in>set text. isspace c) \<longrightarrow>
        (\<forall>chunk\<in>set (split_content text max_length). chunk = [])
        \<and> (int (length text) < max_length \<or> split_nn text = [text]
             \<longrightarrow> split_content text max_length = [[]]))"
proof -
  have "split_content text max_length \<noteq> []"
    by (simp add: split_content_flush flush_split_loop)
  moreover have "(\<forall>c\<in>set text. isspace c) \<Longrightarrow> strip text = []"
    by (rule strip_all_space)
  ultimately show ?thesis
    using split_loop_buffer_nonempty [of max_length "text"]
      split_content_flush [of "text" max_length]
      split_content_whitespace [of "text" max_length]
      split_content_fits [of "text" max_length]
      split_content_single_paragraph [of "text" max_length]
    by auto
qed

text \<open>
  A whitespace-only text shorter than the bound.
\<close>

theorem split_content_never_empty_witness:
  "list_all isspace ''  \<newline> ''
   \<and> int (length ''  \<newline> '') < 1000
   \<and> split_content ''  \<newline> '' 1000 = [[]]
   \<and> split_content ''  \<newline> '' 1000 \<noteq> []"
proof -
  have a: "\<forall>c\<in>set ''  \<newline> ''. isspace c" by (simp add: isspace_def)
  have b: "int (length ''  \<newline> '') < 1000" by simp
  from split_content_never_empty [of "''  \<newline> ''" 1000] a b show ?thesis
    unfolding list_all_iff by blast
qed

text \<open>
  The text \<^verbatim>\<open>"a\n\n  b"\<close> with bound 3: the chunks are \<open>a\<close> and \<open>b\<close>.
\<close>

theorem split_content_reconstructs_modulo_whitespace_witness:
  "filter (\<lambda>c. \<not> isspace c) (concat (split_content ''a\<newline>\<newline>  b'' 3)) = ''ab''"
  using split_content_reconstructs_modulo_whitespace [of "''a\<newline>\<newline>  b''" 3]
  by (simp add: isspace_def)

section \<open>Properties of the answer pipeline\<close>

lemma retrieve_explicit:
  "context \<noteq> [] \<Longrightarrow>
   retrieve b question (Some context) tr
   = ([\<lparr>doc_text = context, doc_source = ''Selected Text'', doc_score = 1\<rparr>], tr)"
  by (simp add: retrieve_def)

lemma retrieve_search:
  "context = None \<or> context = Some [] \<Longrightarrow> retrieve b question context tr = search b question 3 tr"
  by (auto simp: retrieve_def)

lemma embed_text_trace:
  "\<exists>evs. snd (embed_text b txt tr) = tr @ evs \<and> (\<forall>ev\<in>set evs. \<not> chat_event ev \<and> \<not> added_event ev)"
  by (auto simp: embed_text_def split: sum.splits)

lemma search_trace:
  "\<exists>evs. snd (search b query limit tr) = tr @ evs \<and> (\<forall>ev\<in>set evs. \<not> chat_event ev)"
  by (auto simp: search_def search_body_def embed_text_def split: sum.splits prod.splits)

lemma retrieve_trace:
  "\<exists>evs. snd (retrieve b question context tr) = tr @ evs \<and> (\<forall>ev\<in>set evs. \<not> chat_event ev)"
proof (cases "context = None \<or> context = Some []")
  case True
  then show ?thesis by (simp add: retrieve_search search_trace)
next
  case False
  then obtain c where "context = Some c" "c \<noteq> []" by (cases "context") auto
  then show ?thesis by (simp add: retrieve_explicit)
qed

lemma generate_answer_no_docs:
  assumes "fst (retrieve b question context tr) = []"
  shows "generate_answer b question context tr
         = (Inr \<lparr>answer = not_found_answer, sources = [], confidence = 0\<rparr>,
            snd (retrieve b question context tr))"
  using assms
  by (cases "retrieve b question context tr")
     (simp add: generate_answer_def generate_answer_body_def)

lemma generate_answer_docs:
  assumes "retrieve b question context tr = (docs, tr1)" and "docs \<noteq> []"
  shows "generate_answer b question context tr =
     (case chat_create b tr1 system_prompt (user_prompt docs question) of
        Inl e \<Rightarrow> (Inl e, tr1 @ [ChatCreate system_prompt (user_prompt docs question),
                                  LogError ''Error generating answer'' e])
      | Inr [] \<Rightarrow> (Inl IndexError, tr1 @ [ChatCreate system_prompt (user_prompt docs question),
                                      LogError ''Error generating answer'' IndexError])
      | Inr (content # _) \<Rightarrow>
          (Inr \<lparr>answer = content, sources = map doc_source docs,
                confidence = doc_score (hd docs)\<rparr>,
           tr1 @ [ChatCreate system_prompt (user_prompt docs question)]))"
  using assms
  by (cases docs)
     (simp_all add: generate_answer_def generate_answer_body_def Let_def
        split: sum.splits list.splits)

lemma search_encode_fails:
  assumes "encode b tr query = Inl e"
  shows "search b query limit tr
         = ([], tr @ [Encode query, LogError ''Error embedding text'' e, LogError ''Error searching'' e])"
  using assms by (simp add: search_def search_body_def embed_text_def)

lemma search_index_fails:
  assumes "encode b tr query = Inr v" and "qdrant_search b (tr @ [Encode query]) v limit = Inl e"
  shows "search b query limit tr
         = ([], tr @ [Encode query, QdrantSearch v limit, LogError ''Error searching'' e])"
  using assms by (simp add: search_def search_body_def embed_text_def)

section \<open>The answer pipeline: claims\<close>

text \<open>
  Claim C1. With a non-empty explicit context, \<open>generate_answer\<close> calls neither the
  embedding model nor the vector index, and any result it returns has the source list
  \<^verbatim>\<open>["Selected Text"]\<close> and the confidence 1.0; it returns a result exactly when the
  generative model answers with at least one choice.
\<close>

theorem explicit_context_answer:
  assumes "context \<noteq> []"
  shows "(\<exists>evs. snd (generate_answer b question (Some context) tr) = tr @ evs
             \<and> (\<forall>ev\<in>set evs. \<not> retrieval_event ev))
       \<and> (\<forall>result. fst (generate_answer b question (Some context) tr) = Inr result
             \<longrightarrow> sources result = [''Selected Text''] \<and> confidence result = 1)
       \<and> ((\<exists>result. fst (generate_answer b question (Some context) tr) = Inr result)
            \<longleftrightarrow> (\<exists>content rest.
                   chat_create b tr system_prompt
                     (user_prompt [\<lparr>doc_text = context, doc_source = ''Selected Text'',
                                    doc_score = 1\<rparr>] question)
                   = Inr (content # rest)))"
  using generate_answer_docs [OF retrieve_explicit [OF assms], of b question tr]
  by (auto split: sum.splits list.splits)

text \<open>
  A question with an explicit context, every collaborator working.
\<close>

theorem explicit_context_answer_witness:
  "''A humanoid robot has two legs.'' \<noteq> []
   \<and> fst (generate_answer ok_backend ''What is a humanoid robot?''
            (Some ''A humanoid robot has two legs.'') [])
     = Inr \<lparr>answer = ''Humanoids are robots.'', sources = [''Selected Text''], confidence = 1\<rparr>
   \<and> list_all (\<lambda>ev. \<not> retrieval_event ev)
        (snd (generate_answer ok_backend ''What is a humanoid robot?''
               (Some ''A humanoid robot has two legs.'') []))"
proof -
  have a: "''A humanoid robot has two legs.'' \<noteq> []" by simp
  obtain result where r: "fst (generate_answer ok_backend ''What is a humanoid robot?''
            (Some ''A humanoid robot has two legs.'') []) = Inr result"
    using explicit_context_answer [OF a, of ok_backend "''What is a humanoid robot?''" "[]"]
    by (auto simp: ok_backend_def)
  then have "answer result = ''Humanoids are robots.''"
    by (auto simp: generate_answer_def generate_answer_body_def retrieve_def ok_backend_def Let_def)
  moreover have "sources result = [''Selected Text''] \<and> confidence result = 1"
    using explicit_context_answer [OF a, of ok_backend "''What is a humanoid robot?''" "[]"] r
    by blast
  ultimately have "result = \<lparr>answer = ''Humanoids are robots.'', sources = [''Selected Text''], confidence = 1\<rparr>"
    by simp
  with r a explicit_context_answer [OF a, of ok_backend "''What is a humanoid robot?''" "[]"]
  show ?thesis
    by (auto simp: list_all_iff)
qed

text \<open>
  Claim C2. When retrieval yields no result, \<open>generate_answer\<close> returns (it does not
  raise) the fixed answer text, an empty source list and the confidence 0.0, and the
  generative model is not called.
\<close>

theorem no_results_answer:
  assumes "fst (retrieve b question context tr) = []"
  shows "fst (generate_answer b question context tr)
           = Inr \<lparr>answer = not_found_answer, sources = [], confidence = 0\<rparr>
       \<and> take 36 not_found_answer = ''I couldn't find relevant information''
       \<and> (\<exists>evs. snd (generate_answer b question context tr) = tr @ evs
              \<and> (\<forall>ev\<in>set evs. \<not> chat_event ev))"
  using generate_answer_no_docs [OF assms] retrieve_trace [of b question "context" tr]
  by (simp add: not_found_answer_def)

text \<open>
  A question against an empty index.
\<close>

theorem no_results_answer_witness:
  "fst (retrieve empty_index_backend ''What is a humanoid robot?'' None []) = []
   \<and> fst (generate_answer empty_index_backend ''What is a humanoid robot?'' None [])
     = Inr \<lparr>answer = not_found_answer, sources = [], confidence = 0\<rparr>
   \<and> list_all (\<lambda>ev. \<not> chat_event ev)
       (snd (generate_answer empty_index_backend ''What is a humanoid robot?'' None []))"
proof -
  have a: "fst (retrieve empty_index_backend ''What is a humanoid robot?'' None []) = []"
    by (simp add: retrieve_def search_def search_body_def embed_text_def
        empty_index_backend_def ok_backend_def)
  from no_results_answer [OF a] a show ?thesis
    by (auto simp: list_all_iff)
qed

text \<open>
  Claim C5. When retrieval yields a non-empty sequence and \<open>generate_answer\<close> returns a
  result, the confidence of the result is the score of the first retrieved chunk.
\<close>

theorem confidence_is_top_score:
  assumes "fst (retrieve b question context tr) = d # ds"
    and "fst (generate_answer b question context tr) = Inr result"
  shows "confidence result = doc_score d"
proof -
  obtain tr1 where r: "retrieve b question context tr = (d # ds, tr1)"
    using assms(1) by (cases "retrieve b question context tr") simp
  from generate_answer_docs [OF r] assms(2) show ?thesis
    by (auto split: sum.splits list.splits)
qed

text \<open>
  A question against an index holding one record of score 0.5.
\<close>

theorem confidence_is_top_score_witness:
  "fst (retrieve ok_backend ''What is a humanoid robot?'' None [])
     = [\<lparr>doc_text = ''Robots walk.'', doc_source = ''intro.md'', doc_score = 1 / 2\<rparr>]
   \<and> fst (generate_answer ok_backend ''What is a humanoid robot?'' None [])
     = Inr \<lparr>answer = ''Humanoids are robots.'', sources = [''intro.md''], confidence = 1 / 2\<rparr>
   \<and> confidence \<lparr>answer = ''Humanoids are robots.'', sources = [''intro.md''], confidence = 1 / 2\<rparr>
     = doc_score \<lparr>doc_text = ''Robots walk.'', doc_source = ''intro.md'', doc_score = 1 / 2\<rparr>"
proof -
  have a: "fst (retrieve ok_backend ''What is a humanoid robot?'' None [])
     = [\<lparr>doc_text = ''Robots walk.'', doc_source = ''intro.md'', doc_score = 1 / 2\<rparr>]"
    by (simp add: retrieve_def search_def search_body_def embed_text_def hit_doc_def ok_backend_def)
  have b: "fst (generate_answer ok_backend ''What is a humanoid robot?'' None [])
     = Inr \<lparr>answer = ''Humanoids are robots.'', sources = [''intro.md''], confidence = 1 / 2\<rparr>"
    by (simp add: generate_answer_def generate_answer_body_def Let_def
        retrieve_def search_def search_body_def embed_text_def hit_doc_def ok_backend_def)
  from confidence_is_top_score [OF a b] a b show ?thesis by simp
qed

text \<open>
  Claim C6. When the query is embedded and the search of the vector index raises,
  \<open>search\<close> logs the error and returns the empty list; \<open>generate_answer\<close> without an
  explicit context then returns the answer of the case without results.
\<close>

theorem index_failure_gives_no_results:
  assumes "encode b tr question = Inr v"
    and "qdrant_search b (tr @ [Encode question]) v limit = Inl e"
  shows "search b question limit tr
           = ([], tr @ [Encode question, QdrantSearch v limit, LogError ''Error searching'' e])
       \<and> (limit = 3 \<and> (context = None \<or> context = Some []) \<longrightarrow>
            fst (generate_answer b question context tr)
              = Inr \<lparr>answer = not_found_answer, sources = [], confidence = 0\<rparr>)"
proof -
  have s: "search b question limit tr
           = ([], tr @ [Encode question, QdrantSearch v limit, LogError ''Error searching'' e])"
    by (rule search_index_fails [OF assms])
  have "fst (generate_answer b question context tr)
              = Inr \<lparr>answer = not_found_answer, sources = [], confidence = 0\<rparr>"
    if "limit = 3" "context = None \<or> context = Some []"
  proof -
    from that s have "fst (retrieve b question context tr) = []"
      by (simp add: retrieve_search)
    from generate_answer_no_docs [OF this] show ?thesis by simp
  qed
  with s show ?thesis by blast
qed

text \<open>
  A question against an unreachable index.
\<close>

theorem index_failure_gives_no_results_witness:
  "encode no_index_backend [] ''What is a humanoid robot?'' = Inr [1]
   \<and> qdrant_search no_index_backend ([] @ [Encode ''What is a humanoid robot?'']) [1] 3
     = Inl (Failure ''unreachable'')
   \<and> fst (search no_index_backend ''What is a humanoid robot?'' 3 []) = []
   \<and> fst (generate_answer no_index_backend ''What is a humanoid robot?'' None [])
     = Inr \<lparr>answer = not_found_answer, sources = [], confidence = 0\<rparr>"
proof -
  have a: "encode no_index_backend [] ''What is a humanoid robot?'' = Inr [1]"
    by (simp add: no_index_backend_def ok_backend_def)
  have b: "qdrant_search no_index_backend ([] @ [Encode ''What is a humanoid robot?'']) [1] 3
     = Inl (Failure ''unreachable'')"
    by (simp add: no_index_backend_def ok_backend_def)
  from index_failure_gives_no_results [OF a b, of None] a b show ?thesis by simp
qed

text \<open>
  Claim C7. When retrieval yields at least one chunk and the call of the generative model
  raises, \<open>generate_answer\<close> logs the error and raises the same exception; no answer is
  returned in its place.
\<close>

theorem model_failure_propagates:
  assumes "retrieve b question context tr = (docs, tr1)"
    and "docs \<noteq> []"
    and "chat_create b tr1 system_prompt (user_prompt docs question) = Inl e"
  shows "generate_answer b question context tr
         = (Inl e, tr1 @ [ChatCreate system_prompt (user_prompt docs question),
                          LogError ''Error generating answer'' e])"
  using generate_answer_docs [OF assms(1,2)] assms(3) by simp

text \<open>
  A question with an explicit context, the generative model timing out.
\<close>

theorem model_failure_propagates_witness:
  "retrieve no_chat_backend ''What is a humanoid robot?'' (Some ''Two legs.'') []
     = ([\<lparr>doc_text = ''Two legs.'', doc_source = ''Selected Text'', doc_score = 1\<rparr>], [])
   \<and> [\<lparr>doc_text = ''Two legs.'', doc_source = ''Selected Text'', doc_score = 1\<rparr>] \<noteq> []
   \<and> fst (generate_answer no_chat_backend ''What is a humanoid robot?'' (Some ''Two legs.'') [])
     = Inl (Failure ''timeout'')"
proof -
  let ?docs = "[\<lparr>doc_text = ''Two legs.'', doc_source = ''Selected Text'', doc_score = 1\<rparr>]"
  have a: "retrieve no_chat_backend ''What is a humanoid robot?'' (Some ''Two legs.'') []
     = (?docs, [])"
    by (simp add: retrieve_def)
  have b: "?docs \<noteq> []" by simp
  have c: "chat_create no_chat_backend [] system_prompt
             (user_prompt ?docs ''What is a humanoid robot?'') = Inl (Failure ''timeout'')"
    by (simp add: no_chat_backend_def ok_backend_def)
  from model_failure_propagates [OF a b c] a show ?thesis by simp
qed

text \<open>
  Claim C9. When the embedding of the query raises, \<open>search\<close> returns the empty list, and
  \<open>generate_answer\<close> without an explicit context returns the answer of the case without
  results instead of the error.
\<close>

theorem embedding_failure_gives_no_results:
  assumes "encode b tr question = Inl e"
  shows "search b question limit tr
           = ([], tr @ [Encode question, LogError ''Error embedding text'' e,
                        LogError ''Error searching'' e])
       \<and> (context = None \<or> context = Some [] \<longrightarrow>
            fst (generate_answer b question context tr)
              = Inr \<lparr>answer = not_found_answer, sources = [], confidence = 0\<rparr>)"
proof -
  have s: "search b question k tr
           = ([], tr @ [Encode question, LogError ''Error embedding text'' e,
                        LogError ''Error searching'' e])" for k
    by (rule search_encode_fails [OF assms])
  have "fst (generate_answer b question context tr)
              = Inr \<lparr>answer = not_found_answer, sources = [], confidence = 0\<rparr>"
    if "context = None \<or> context = Some []"
  proof -
    from that s [of 3] have "fst (retrieve b question context tr) = []"
      by (simp add: retrieve_search)
    from generate_answer_no_docs [OF this] show ?thesis by simp
  qed
  with s [of limit] show ?thesis by blast
qed

text \<open>
  A question while the embedding model fails.
\<close>

theorem embedding_failure_gives_no_results_witness:
  "encode no_embedding_backend [] ''What is a humanoid robot?'' = Inl (Failure ''model'')
   \<and> fst (search no_embedding_backend ''What is a humanoid robot?'' 3 []) = []
   \<and> fst (generate_answer no_embedding_backend ''What is a humanoid robot?'' None [])
     = Inr \<lparr>answer = not_found_answer, sources = [], confidence = 0\<rparr>"
proof -
  have a: "encode no_embedding_backend [] ''What is a humanoid robot?'' = Inl (Failure ''model'')"
    by (simp add: no_embedding_backend_def ok_backend_def)
  from embedding_failure_gives_no_results [OF a, of 3 None] a show ?thesis by simp
qed

section \<open>Properties of the indexing pipeline\<close>
























lemma ok_stdout: "stdout_write ok_backend t line = Inr ()"
  by (simp add: ok_backend_def)














text \<open>
  When the line of an error cannot be printed, the exception of \<^verbatim>\<open>print\<close> leaves the
  handler and ends the run: the second file is not read and no count is printed.
\<close>

lemma error_line_failure_ends_run:
  "index_markdown_files no_error_line_backend True [''bad.md'', ''good.md''] []
     = (Inl (Failure ''encode''),
        [Print (Found 2), ReadFile ''bad.md'',
         Print (ErrorIndexing ''bad.md'' (Failure ''decode''))])"
  by (simp add: index_markdown_files_def index_file_body_def print_line_def
      no_error_line_backend_def unreadable_backend_def ok_backend_def)

section \<open>The indexing pipeline: claims\<close>




end
